theory Spec2Isabelle
  imports Complex_Main "HOL-Library.AList"
begin

section \<open>Python strings\<close>

text \<open>
  A Python \<open>str\<close> is a sequence of code points. The model takes the code points below
  256 (Latin-1), one \<^typ>\<open>char\<close> each, which covers the output of the \<open>sensors\<close> utility:
  ASCII and the degree sign U+00B0, written \<open>CHR 0xB0\<close> here. The character classes
  below are Python's on that range.
\<close>

definition degree :: char where
  "degree = CHR 0xB0"

text \<open>\<open>str.isspace\<close> and the regular expression class \<open>\s\<close> agree on this range.\<close>

definition isspace :: "char \<Rightarrow> bool" where
  "isspace c = (of_char c \<in> set [9, 10, 11, 12, 13, 28, 29, 30, 31, 32, 133, 160 :: nat])"

text \<open>The class \<open>\d\<close>: the decimal digits.\<close>

definition isdigit :: "char \<Rightarrow> bool" where
  "isdigit c = (48 \<le> (of_char c :: nat) \<and> (of_char c :: nat) \<le> 57)"

text \<open>\<open>str.lower\<close>: A-Z, and the Latin-1 capitals U+00C0..U+00DE apart from U+00D7.\<close>

definition lower_char :: "char \<Rightarrow> char" where
  "lower_char c =
     (let n = (of_char c :: nat)
      in if (65 \<le> n \<and> n \<le> 90) \<or> (192 \<le> n \<and> n \<le> 222 \<and> n \<noteq> 215)
         then char_of (n + 32) else c)"

definition lower :: "string \<Rightarrow> string" where
  "lower s = map lower_char s"

text \<open>\<open>str.strip()\<close> removes whitespace from both ends.\<close>

definition strip :: "string \<Rightarrow> string" where
  "strip s = rev (dropWhile isspace (rev (dropWhile isspace s)))"

fun starts_with :: "string \<Rightarrow> string \<Rightarrow> bool" where
  "starts_with [] s = True"
| "starts_with (p # ps) [] = False"
| "starts_with (p # ps) (c # cs) = (p = c \<and> starts_with ps cs)"

text \<open>\<open>sub in s\<close>, the substring test.\<close>

fun contains :: "string \<Rightarrow> string \<Rightarrow> bool" where
  "contains sub [] = (sub = [])"
| "contains sub (c # cs) = (starts_with sub (c # cs) \<or> contains sub cs)"

text \<open>
  \<open>str.splitlines()\<close>: a line ends at LF, CR, CR LF, VT, FF, FS, GS, RS or NEL; the
  boundaries are dropped and a final boundary opens no empty line.
\<close>

definition is_linebreak :: "char \<Rightarrow> bool" where
  "is_linebreak c = (of_char c \<in> set [10, 11, 12, 13, 28, 29, 30, 133 :: nat])"

fun splitlines_from :: "string \<Rightarrow> string \<Rightarrow> string list" where
  "splitlines_from cur [] = (if cur = [] then [] else [cur])"
| "splitlines_from cur [c] = (if is_linebreak c then [cur] else [cur @ [c]])"
| "splitlines_from cur (c # d # cs) =
     (if c = CHR 0x0D \<and> d = CHR 0x0A then cur # splitlines_from [] cs
      else if is_linebreak c then cur # splitlines_from [] (d # cs)
      else splitlines_from (cur @ [c]) (d # cs))"

definition splitlines :: "string \<Rightarrow> string list" where
  "splitlines s = splitlines_from [] s"

text \<open>\<open>line.split(":", 1)[0]\<close>: the text before the first colon, the whole line without one.\<close>

definition before_colon :: "string \<Rightarrow> string" where
  "before_colon s = takeWhile (\<lambda>c. c \<noteq> CHR '':'') s"

section \<open>Regular expressions\<close>

text \<open>
  The fragment of Python's \<open>re\<close> the patterns of the program use: literals, the greedy
  \<open>\d+\<close> and \<open>\s+\<close>, sequencing, the optional group \<open>(?:...)?\<close> and capture groups.
  \<open>rmatch\<close> lists the ways a pattern matches at the start of a text in the order the
  backtracking matcher tries them (a greedy repetition from the longest down, an option
  first taken, then skipped), each with the captures so far and the text left.
\<close>

datatype cclass = Digit | Space

fun in_class :: "cclass \<Rightarrow> char \<Rightarrow> bool" where
  "in_class Digit c = isdigit c"
| "in_class Space c = isspace c"

datatype regex =
    Lit string
  | Plus cclass
  | Seq regex regex
  | Opt regex
  | Group nat regex

type_synonym captures = "(nat \<times> string) list"

fun rmatch :: "regex \<Rightarrow> captures \<times> string \<Rightarrow> (captures \<times> string) list" where
  "rmatch (Lit l) (g, s) = (if starts_with l s then [(g, drop (length l) s)] else [])"
| "rmatch (Plus cl) (g, s) =
     map (\<lambda>k. (g, drop k s)) (rev [1 ..< Suc (length (takeWhile (in_class cl) s))])"
| "rmatch (Seq a b) (g, s) = concat (map (rmatch b) (rmatch a (g, s)))"
| "rmatch (Opt a) (g, s) = rmatch a (g, s) @ [(g, s)]"
| "rmatch (Group n a) (g, s) =
     map (\<lambda>(g', s'). (AList.update n (take (length s - length s') s) g', s'))
       (rmatch a (g, s))"

text \<open>\<open>re.search\<close>: the first match at the leftmost position that has one.\<close>

fun search :: "regex \<Rightarrow> string \<Rightarrow> captures option" where
  "search r [] = (case rmatch r ([], []) of [] \<Rightarrow> None | (g, _) # _ \<Rightarrow> Some g)"
| "search r (c # cs) =
     (case rmatch r ([], c # cs) of [] \<Rightarrow> search r cs | (g, _) # _ \<Rightarrow> Some g)"

definition seqs :: "regex list \<Rightarrow> regex" where
  "seqs rs = foldr Seq rs (Lit [])"

text \<open>A signed Celsius value as the patterns write it: \<open>\+(\d+\.\d+)\<degree>C\<close>, captured in group n.\<close>

definition celsius_rx :: "nat \<Rightarrow> regex list" where
  "celsius_rx n =
     [Lit ''+'', Group n (seqs [Plus Digit, Lit ''.'', Plus Digit]), Lit [degree], Lit ''C'']"

text \<open>\<open>(Core \d+):\s+\+(\d+\.\d+)\<degree>C\<close>\<close>

definition core_rx :: regex where
  "core_rx = seqs ([Group 1 (seqs [Lit ''Core '', Plus Digit]), Lit '':'', Plus Space] @ celsius_rx 2)"

text \<open>\<open>(Package id \d+):\s+\+(\d+\.\d+)\<degree>C\<close>\<close>

definition package_rx :: regex where
  "package_rx =
     seqs ([Group 1 (seqs [Lit ''Package id '', Plus Digit]), Lit '':'', Plus Space] @ celsius_rx 2)"

text \<open>\<open>(fan\d+):\s+(\d+) RPM\s+(?:\(min\s+=\s+\d+ RPM,\s+max\s+=\s+(\d+) RPM\))?\<close>\<close>

definition fan_rx :: regex where
  "fan_rx =
     seqs [Group 1 (seqs [Lit ''fan'', Plus Digit]), Lit '':'', Plus Space,
           Group 2 (Plus Digit), Lit '' RPM'', Plus Space,
           Opt (seqs [Lit ''(min'', Plus Space, Lit ''='', Plus Space, Plus Digit,
                      Lit '' RPM,'', Plus Space, Lit ''max'', Plus Space, Lit ''='',
                      Plus Space, Group 3 (Plus Digit), Lit '' RPM)''])]"

text \<open>\<open>Composite:\s+\+(\d+\.\d+)\<degree>C\<close>\<close>

definition composite_rx :: regex where
  "composite_rx = seqs ([Lit ''Composite:'', Plus Space] @ celsius_rx 1)"

text \<open>\<open>(temp\d+):\s+\+(\d+\.\d+)\<degree>C\<close>\<close>

definition temp_rx :: regex where
  "temp_rx = seqs ([Group 1 (seqs [Lit ''temp'', Plus Digit]), Lit '':'', Plus Space] @ celsius_rx 2)"

section \<open>Numbers\<close>

text \<open>
  \<open>int(s)\<close> on a string of decimal digits, and \<open>float(s)\<close> on the text \<open>\d+\.\d+\<close> the
  patterns capture. A Python float is modelled by the real number its decimal text denotes;
  the rounding of binary floating point is not modelled.
\<close>

definition digit_val :: "char \<Rightarrow> nat" where
  "digit_val c = of_char c - 48"

definition int_of_digits :: "string \<Rightarrow> int" where
  "int_of_digits s = int (foldl (\<lambda>n c. 10 * n + digit_val c) 0 s)"

definition float_of_decimal :: "string \<Rightarrow> real" where
  "float_of_decimal s =
     (let a = takeWhile (\<lambda>c. c \<noteq> CHR ''.'') s;
          b = drop 1 (dropWhile (\<lambda>c. c \<noteq> CHR ''.'') s)
      in of_int (int_of_digits a) + of_int (int_of_digits b) / 10 ^ length b)"

section \<open>SensorData\<close>

text \<open>
  The dictionaries of the class are association lists in insertion order, as a Python
  \<open>dict\<close> keeps them: \<open>d[k] = v\<close> is \<^const>\<open>AList.update\<close> (an existing key keeps its
  place, a new one goes last), \<open>k in d\<close> and \<open>d[k]\<close> read \<^const>\<open>map_of\<close>. A deque
  is the list of its elements, oldest first.
\<close>

record sensor_data =
  cpu_temps :: "(string \<times> real) list"
  fan_speeds :: "(string \<times> int) list"
  storage_temps :: "(string \<times> real) list"
  other_temps :: "(string \<times> real) list"
  cpu_temp_history :: "(string \<times> real list) list"
  fan_speed_history :: "(string \<times> int list) list"
  storage_temp_history :: "(string \<times> real list) list"
  other_temp_history :: "(string \<times> real list) list"
  max_fan_speeds :: "(string \<times> int) list"

definition max_data_points :: nat where
  "max_data_points = 60"

text \<open>\<open>SensorData.__init__\<close>\<close>

definition init :: sensor_data where
  "init = \<lparr> cpu_temps = [], fan_speeds = [], storage_temps = [], other_temps = [],
            cpu_temp_history = [], fan_speed_history = [], storage_temp_history = [],
            other_temp_history = [], max_fan_speeds = [] \<rparr>"

subsection \<open>Parsing\<close>

text \<open>
  The bodies of the branches of the loop of \<open>_parse_sensors_output\<close>, each the search of
  its pattern and the stores that follow a match (\<open>match.groups()\<close> read through
  \<^const>\<open>map_of\<close>), and then the loop body itself, on the pair of the current adapter and
  the object; \<open>continue\<close> returns the pair.
\<close>

definition on_core :: "string \<Rightarrow> sensor_data \<Rightarrow> sensor_data" where
  "on_core line d =
     (case search core_rx line of
        None \<Rightarrow> d
      | Some m \<Rightarrow>
          (case map_of m 1 of
             None \<Rightarrow> d
           | Some core \<Rightarrow>
               (case map_of m 2 of
                  None \<Rightarrow> d
                | Some temp \<Rightarrow>
                    d\<lparr>cpu_temps := AList.update core (float_of_decimal temp) (cpu_temps d)\<rparr>)))"

definition on_package :: "string \<Rightarrow> sensor_data \<Rightarrow> sensor_data" where
  "on_package line d =
     (case search package_rx line of
        None \<Rightarrow> d
      | Some m \<Rightarrow>
          (case map_of m 1 of
             None \<Rightarrow> d
           | Some package \<Rightarrow>
               (case map_of m 2 of
                  None \<Rightarrow> d
                | Some temp \<Rightarrow>
                    d\<lparr>cpu_temps := AList.update package (float_of_decimal temp) (cpu_temps d)\<rparr>)))"

text \<open>The maximum is stored when the clause gave one, and the default 4000 when the fan has none yet.\<close>

definition store_max_speed :: "string \<Rightarrow> string option \<Rightarrow> (string \<times> int) list \<Rightarrow> (string \<times> int) list" where
  "store_max_speed fan max_speed maxes =
     (case max_speed of
        Some ms \<Rightarrow> AList.update fan (int_of_digits ms) maxes
      | None \<Rightarrow> if map_of maxes fan = None then AList.update fan 4000 maxes else maxes)"

definition on_fan :: "string \<Rightarrow> sensor_data \<Rightarrow> sensor_data" where
  "on_fan line d =
     (case search fan_rx line of
        None \<Rightarrow> d
      | Some m \<Rightarrow>
          (case map_of m 1 of
             None \<Rightarrow> d
           | Some fan \<Rightarrow>
               (case map_of m 2 of
                  None \<Rightarrow> d
                | Some speed \<Rightarrow>
                    d\<lparr>fan_speeds := AList.update fan (int_of_digits speed) (fan_speeds d),
                      max_fan_speeds := store_max_speed fan (map_of m 3) (max_fan_speeds d)\<rparr>)))"

definition on_composite :: "string \<Rightarrow> sensor_data \<Rightarrow> sensor_data" where
  "on_composite line d =
     (case search composite_rx line of
        None \<Rightarrow> d
      | Some m \<Rightarrow>
          (case map_of m 1 of
             None \<Rightarrow> d
           | Some temp \<Rightarrow>
               d\<lparr>storage_temps := AList.update ''NVMe'' (float_of_decimal temp) (storage_temps d)\<rparr>))"

definition on_temp :: "string \<Rightarrow> string \<Rightarrow> sensor_data \<Rightarrow> sensor_data" where
  "on_temp current_adapter line d =
     (case search temp_rx line of
        None \<Rightarrow> d
      | Some m \<Rightarrow>
          (case map_of m 1 of
             None \<Rightarrow> d
           | Some sensor \<Rightarrow>
               (case map_of m 2 of
                  None \<Rightarrow> d
                | Some temp \<Rightarrow>
                    d\<lparr>other_temps :=
                         AList.update (current_adapter @ ''_'' @ sensor) (float_of_decimal temp)
                           (other_temps d)\<rparr>)))"

definition celsius :: string where
  "celsius = [degree, CHR ''C'']"

fun parse_line :: "string \<times> sensor_data \<Rightarrow> string \<Rightarrow> string \<times> sensor_data" where
  "parse_line (current_adapter, d) raw =
     (let line = strip raw in
      if line = [] then (current_adapter, d)
      else if contains ''Adapter:'' line then (strip (before_colon line), d)
      else if contains ''Core'' line \<and> contains celsius line then
        (current_adapter, on_core line d)
      else if contains ''Package id'' line \<and> contains celsius line then
        (current_adapter, on_package line d)
      else if contains ''fan'' (lower line) \<and> contains ''RPM'' line then
        (current_adapter, on_fan line d)
      else if current_adapter \<noteq> [] \<and> contains ''nvme'' (lower current_adapter)
              \<and> contains ''Composite'' line \<and> contains celsius line then
        (current_adapter, on_composite line d)
      else if contains ''temp'' (lower line) \<and> contains celsius line
              \<and> \<not> contains ''Core'' line \<and> \<not> contains ''Package'' line then
        (current_adapter, on_temp current_adapter line d)
      else (current_adapter, d))"

declare parse_line.simps [simp del]

text \<open>The four \<open>clear()\<close> calls that open \<open>_parse_sensors_output\<close>.\<close>

definition clear_current :: "sensor_data \<Rightarrow> sensor_data" where
  "clear_current d = d\<lparr>cpu_temps := [], fan_speeds := [], storage_temps := [], other_temps := []\<rparr>"

definition parse_lines :: "string list \<Rightarrow> string \<times> sensor_data \<Rightarrow> string \<times> sensor_data" where
  "parse_lines ls st = foldl parse_line st ls"

definition parse_sensors_output :: "string \<Rightarrow> sensor_data \<Rightarrow> sensor_data" where
  "parse_sensors_output output d =
     snd (parse_lines (splitlines output) (''unknown'', clear_current d))"

subsection \<open>Histories\<close>

text \<open>\<open>deque(maxlen=60).append(v)\<close>: the value goes to the right end, and the left end is dropped
  when the length passes \<open>maxlen\<close>.\<close>

definition deque_append :: "'a list \<Rightarrow> 'a \<Rightarrow> 'a list" where
  "deque_append q v = (let q' = q @ [v] in if length q' > max_data_points then tl q' else q')"

text \<open>One pass of a loop of \<open>_update_histories\<close>: the deque is created when the key is new,
  then the value is appended to the deque under the key.\<close>

definition record_sample :: "(string \<times> 'a list) list \<Rightarrow> string \<times> 'a \<Rightarrow> (string \<times> 'a list) list" where
  "record_sample history kv =
     (case kv of (key, v) \<Rightarrow>
        (let h1 = (if map_of history key = None then AList.update key [] history else history)
         in (case map_of h1 key of
               Some q \<Rightarrow> AList.update key (deque_append q v) h1
             | None \<Rightarrow> h1)))"

definition update_histories :: "sensor_data \<Rightarrow> sensor_data" where
  "update_histories d =
     d\<lparr>cpu_temp_history := foldl record_sample (cpu_temp_history d) (cpu_temps d),
       fan_speed_history := foldl record_sample (fan_speed_history d) (fan_speeds d),
       storage_temp_history := foldl record_sample (storage_temp_history d) (storage_temps d),
       other_temp_history := foldl record_sample (other_temp_history d) (other_temps d)\<rparr>"

subsection \<open>The tick\<close>

text \<open>
  \<open>SensorData.update\<close>. The raw-text source, \<open>subprocess.check_output\<close>, either returns the
  text or raises; the \<open>except\<close> clause turns the exception into the result \<open>False\<close>.
\<close>

datatype py_error = CalledProcessError | OSError | IndexError | ZeroDivisionError

definition update :: "py_error + string \<Rightarrow> sensor_data \<Rightarrow> bool \<times> sensor_data" where
  "update source d =
     (case source of
        Inl e \<Rightarrow> (False, d)
      | Inr output \<Rightarrow> (True, update_histories (parse_sensors_output output d)))"

text \<open>The object after a sequence of ticks, one source result per tick.\<close>

definition ticks :: "(py_error + string) list \<Rightarrow> sensor_data \<Rightarrow> sensor_data" where
  "ticks sources d = foldl (\<lambda>d src. snd (update src d)) d sources"

section \<open>SystemMonitor: what the views read\<close>

text \<open>The series \<open>_update_plot\<close> draws for one deque; \<open>data[0]\<close> of an empty list raises.\<close>

definition padded :: "'a list \<Rightarrow> py_error + 'a list" where
  "padded data =
     (if length data < 60 then
        (case data of
           [] \<Rightarrow> Inl IndexError
         | first # _ \<Rightarrow> Inr (replicate (60 - length data) first @ data))
      else Inr data)"

text \<open>The percentage \<open>_update_fan_indicators\<close> computes for a fan and its speed.\<close>

definition fan_percentage :: "sensor_data \<Rightarrow> string \<Rightarrow> int \<Rightarrow> py_error + real" where
  "fan_percentage d fan speed =
     (let max_speed = (case map_of (max_fan_speeds d) fan of Some m \<Rightarrow> m | None \<Rightarrow> 4000)
      in if max_speed = 0 then Inl ZeroDivisionError
         else Inr (min 100 ((of_int speed / of_int max_speed) * 100)))"

section \<open>Categories, snapshots and histories\<close>

text \<open>
  The four groups of dictionaries of the object, read by category. Fan speeds are integers
  in the object and are read as reals here, so that one statement covers the four
  categories.
\<close>

datatype category = CpuTemperature | FanSpeed | StorageTemperature | OtherTemperature

definition as_real :: "(string \<times> int) list \<Rightarrow> (string \<times> real) list" where
  "as_real kvs = map (\<lambda>(k, v). (k, real_of_int v)) kvs"

definition as_reals :: "(string \<times> int list) list \<Rightarrow> (string \<times> real list) list" where
  "as_reals kqs = map (\<lambda>(k, q). (k, map real_of_int q)) kqs"

fun snapshot :: "category \<Rightarrow> sensor_data \<Rightarrow> (string \<times> real) list" where
  "snapshot CpuTemperature d = cpu_temps d"
| "snapshot FanSpeed d = as_real (fan_speeds d)"
| "snapshot StorageTemperature d = storage_temps d"
| "snapshot OtherTemperature d = other_temps d"

fun history :: "category \<Rightarrow> sensor_data \<Rightarrow> (string \<times> real list) list" where
  "history CpuTemperature d = cpu_temp_history d"
| "history FanSpeed d = as_reals (fan_speed_history d)"
| "history StorageTemperature d = storage_temp_history d"
| "history OtherTemperature d = other_temp_history d"

text \<open>The snapshot a raw text parses to; it does not depend on the object that parses it
  (lemma \<open>snapshot_parse\<close> below).\<close>

definition parsed_snapshot :: "category \<Rightarrow> string \<Rightarrow> (string \<times> real) list" where
  "parsed_snapshot c output = snapshot c (parse_sensors_output output init)"

text \<open>The values a channel receives over a sequence of ticks, in order: one from each tick
  whose source returned a text with a sample for the channel.\<close>

definition samples :: "category \<Rightarrow> string \<Rightarrow> (py_error + string) list \<Rightarrow> real list" where
  "samples c key sources =
     concat (map (\<lambda>src. case src of
                           Inl e \<Rightarrow> []
                         | Inr output \<Rightarrow>
                             (case map_of (parsed_snapshot c output) key of
                                None \<Rightarrow> []
                              | Some v \<Rightarrow> [v])) sources)"

definition last_n :: "nat \<Rightarrow> 'a list \<Rightarrow> 'a list" where
  "last_n n xs = drop (length xs - n) xs"

definition stored :: "(string \<times> 'a list) list \<Rightarrow> string \<Rightarrow> 'a list" where
  "stored h key = (case map_of h key of None \<Rightarrow> [] | Some q \<Rightarrow> q)"

definition current :: "sensor_data \<Rightarrow>
    (string \<times> real) list \<times> (string \<times> int) list \<times> (string \<times> real) list \<times> (string \<times> real) list" where
  "current d = (cpu_temps d, fan_speeds d, storage_temps d, other_temps d)"

definition histories :: "sensor_data \<Rightarrow>
    (string \<times> real list) list \<times> (string \<times> int list) list \<times> (string \<times> real list) list
    \<times> (string \<times> real list) list" where
  "histories d =
     (cpu_temp_history d, fan_speed_history d, storage_temp_history d, other_temp_history d)"

definition distinct_keys :: "sensor_data \<Rightarrow> bool" where
  "distinct_keys d \<longleftrightarrow>
     distinct (map fst (cpu_temps d)) \<and> distinct (map fst (fan_speeds d)) \<and>
     distinct (map fst (storage_temps d)) \<and> distinct (map fst (other_temps d))"

section \<open>Notions the statements use\<close>

text \<open>The first entry of \<^const>\<open>rmatch\<close>: the match the backtracking matcher returns at a position.\<close>

definition first_match :: "regex \<Rightarrow> captures \<times> string \<Rightarrow> (captures \<times> string) option" where
  "first_match r st = (case rmatch r st of [] \<Rightarrow> None | x # _ \<Rightarrow> Some x)"

text \<open>Non-empty runs of digits and of whitespace, the texts \<open>\d+\<close> and \<open>\s+\<close> match whole.\<close>

definition digits :: "string \<Rightarrow> bool" where
  "digits s = (s \<noteq> [] \<and> list_all isdigit s)"

definition spaces :: "string \<Rightarrow> bool" where
  "spaces s = (s \<noteq> [] \<and> list_all isspace s)"

text \<open>A core temperature line: \<open>Core N:\<close>, whitespace, \<open>+a.b\<degree>C\<close>, and the rest of the line.\<close>

definition core_text :: "string \<Rightarrow> string \<Rightarrow> string \<Rightarrow> string \<Rightarrow> string \<Rightarrow> string" where
  "core_text n ws a b rest =
     ''Core '' @ n @ '':'' @ ws @ ''+'' @ (a @ ''.'' @ b) @ [degree] @ ''C'' @ rest"

text \<open>A composite temperature line: \<open>Composite:\<close>, whitespace, \<open>+a.b\<degree>C\<close>, and the rest.\<close>

definition composite_text :: "string \<Rightarrow> string \<Rightarrow> string \<Rightarrow> string \<Rightarrow> string" where
  "composite_text ws a b rest =
     ''Composite:'' @ ws @ ''+'' @ (a @ ''.'' @ b) @ [degree] @ ''C'' @ rest"

text \<open>
  The tests of the branches of \<^const>\<open>parse_line\<close> that come before the storage branch: a
  line that passes one of them is taken by that branch and never reaches the storage one.
\<close>

definition earlier_rule :: "string \<Rightarrow> bool" where
  "earlier_rule line \<longleftrightarrow>
     contains ''Adapter:'' line \<or>
     (contains ''Core'' line \<and> contains celsius line) \<or>
     (contains ''Package id'' line \<and> contains celsius line) \<or>
     (contains ''fan'' (lower line) \<and> contains ''RPM'' line)"

text \<open>A raw line that is a composite temperature line once stripped and reaches the storage branch.\<close>

definition composite_line :: "string \<Rightarrow> string \<Rightarrow> string \<Rightarrow> string \<Rightarrow> string \<Rightarrow> bool" where
  "composite_line raw ws a b rest \<longleftrightarrow>
     spaces ws \<and> digits a \<and> digits b \<and> strip raw = composite_text ws a b rest \<and>
     \<not> earlier_rule (strip raw)"

text \<open>
  The line gives the fan a max-RPM clause: the fan pattern matches it, for this fan, with the
  third group (the maximum) set.
\<close>

definition gives_max :: "string \<Rightarrow> string \<Rightarrow> bool" where
  "gives_max fan line =
     (case search fan_rx line of
        None \<Rightarrow> False
      | Some m \<Rightarrow> map_of m 1 = Some fan \<and> map_of m 3 \<noteq> None)"


section \<open>Lines of \<open>sensors\<close> output used as examples\<close>

definition core_line :: "string \<Rightarrow> string" where
  "core_line t = ''Core 0:        +'' @ t @ [degree] @ ''C  (high = +80.0'' @ [degree] @ ''C)''"

definition core_0_line :: string where
  "core_0_line =
     ''Core 0:        +45.0'' @ [degree] @ ''C  (high = +80.0'' @ [degree] @ ''C, crit = +100.0''
       @ [degree] @ ''C)''"

definition negative_core_line :: string where
  "negative_core_line = ''Core 0:        -5.0'' @ [degree] @ ''C''"

definition fan_line :: string where
  "fan_line = ''fan1:        2125 RPM  (min =    0 RPM, max = 3700 RPM)''"

definition fan_line_no_clause :: string where
  "fan_line_no_clause = ''fan1:        2000 RPM  (min =    0 RPM)''"

definition fan_line_bare :: string where
  "fan_line_bare = ''fan2:        1000 RPM''"

definition fan_line_zero_max :: string where
  "fan_line_zero_max = ''fan3:        900 RPM  (min =    0 RPM, max =    0 RPM)''"


definition composite_38 :: string where
  "composite_38 = ''Composite:    +38.0'' @ [degree] @ ''C''"

definition composite_41 :: string where
  "composite_41 = ''  Composite: +41.5'' @ [degree] @ ''C  (low  = -273.1'' @ [degree] @ ''C)''"

definition negative_composite_line :: string where
  "negative_composite_line = ''Composite:    -5.0'' @ [degree] @ ''C''"

text \<open>A header whose text before the colon names the controller, followed by a composite line.\<close>

definition nvme_named_block :: string where
  "nvme_named_block = ''nvme0 Adapter: PCI adapter'' @ [CHR 0x0A] @ composite_38 @ [CHR 0x0A]"

definition nvme_negative_block :: string where
  "nvme_negative_block =
     ''nvme0 Adapter: PCI adapter'' @ [CHR 0x0A] @ negative_composite_line @ [CHR 0x0A]"

section \<open>The ring buffer\<close>

lemma deque_append_last_n:
  "length q \<le> 60 \<Longrightarrow> deque_append q v = last_n 60 (q @ [v])"
proof (cases "length q = 60")
  case True
  then obtain a list where q: "q = a # list" by (cases q) auto
  with True have "Suc (Suc (length list)) - 60 = 1" by simp
  with True q show ?thesis
    by (simp add: deque_append_def last_n_def max_data_points_def Let_def)
next
  case False
  assume "length q \<le> 60"
  with False have "length q < 60" by simp
  then show ?thesis
    by (simp add: deque_append_def last_n_def max_data_points_def Let_def)
qed

lemma last_n_length: "length (last_n n xs) = min (length xs) n"
  by (simp add: last_n_def)

lemma last_n_snoc: "last_n n (last_n n xs @ [v]) = last_n n (xs @ [v])"
  by (cases "length xs \<le> n") (auto simp: last_n_def Suc_diff_le)

lemma last_n_short: "length xs \<le> n \<Longrightarrow> last_n n xs = xs"
  by (simp add: last_n_def)

lemma record_sample_conv:
  "record_sample h (k, v) = AList.update k (deque_append (stored h k) v) h"
  by (simp add: record_sample_def stored_def update_conv' split: option.split)

lemma map_of_record_sample:
  "map_of (record_sample h (k, v)) = (map_of h)(k \<mapsto> deque_append (stored h k) v)"
  by (simp add: record_sample_conv update_conv')

lemma stored_record_sample:
  "stored (record_sample h (k, v)) k' = (if k' = k then deque_append (stored h k) v else stored h k')"
  by (simp add: stored_def map_of_record_sample)

lemma map_of_foldl_absent:
  "k \<notin> fst ` set snap \<Longrightarrow> map_of (foldl record_sample h snap) k = map_of h k"
proof (induction snap arbitrary: h)
  case Nil
  then show ?case by simp
next
  case (Cons p snap)
  obtain k' v where p: "p = (k', v)" by (cases p)
  from Cons.prems p have "k \<noteq> k'" "k \<notin> fst ` set snap" by auto
  then show ?case using Cons.IH [of "record_sample h (k', v)"] p
    by (simp add: map_of_record_sample)
qed

lemma map_of_foldl_present:
  "distinct (map fst snap) \<Longrightarrow> map_of snap k = Some v \<Longrightarrow>
   map_of (foldl record_sample h snap) k = Some (deque_append (stored h k) v)"
proof (induction snap arbitrary: h)
  case Nil
  then show ?case by simp
next
  case (Cons p snap)
  obtain k' v' where p: "p = (k', v')" by (cases p)
  show ?case
  proof (cases "k' = k")
    case True
    with Cons.prems p have "v' = v" "k \<notin> fst ` set snap" by auto
    then show ?thesis using p True map_of_foldl_absent [of k snap "record_sample h (k, v)"]
      by (simp add: map_of_record_sample)
  next
    case False
    with Cons.prems p have "distinct (map fst snap)" "map_of snap k = Some v" by auto
    from Cons.IH [OF this, of "record_sample h (k', v')"] False p
    show ?thesis by (simp add: stored_record_sample)
  qed
qed

lemma dom_foldl_record:
  "fst ` set (foldl record_sample h snap) = fst ` set h \<union> fst ` set snap"
proof (induction snap arbitrary: h)
  case Nil
  then show ?case by simp
next
  case (Cons p snap)
  obtain k v where p: "p = (k, v)" by (cases p)
  show ?case using Cons.IH [of "record_sample h (k, v)"] p
    by (auto simp: record_sample_conv dom_update)
qed

section \<open>What parsing leaves alone\<close>

lemmas on_defs = on_core_def on_package_def on_fan_def on_composite_def on_temp_def

lemma on_histories:
  "histories (on_core l d) = histories d"
  "histories (on_package l d) = histories d"
  "histories (on_fan l d) = histories d"
  "histories (on_composite l d) = histories d"
  "histories (on_temp a l d) = histories d"
  by (simp_all add: on_defs histories_def split: option.split)

lemma parse_line_histories:
  "histories (snd (parse_line (a, d) l)) = histories d"
  by (simp add: parse_line.simps Let_def on_histories if_distrib [of "\<lambda>x. histories (snd x)"]
        split del: if_split cong: if_cong)

lemma on_current:
  assumes "current d = current d'"
  shows "current (on_core l d) = current (on_core l d')"
  "current (on_package l d) = current (on_package l d')"
  "current (on_fan l d) = current (on_fan l d')"
  "current (on_composite l d) = current (on_composite l d')"
  "current (on_temp a l d) = current (on_temp a l d')"
  using assms by (simp_all add: on_defs current_def split: option.split)

lemma parse_line_current:
  assumes "current d = current d'"
  shows "fst (parse_line (a, d) l) = fst (parse_line (a, d') l)"
    and "current (snd (parse_line (a, d) l)) = current (snd (parse_line (a, d') l))"
  by (simp_all add: parse_line.simps Let_def if_distrib [of fst]
        if_distrib [of "\<lambda>x. current (snd x)"]
        on_current [OF assms] assms split del: if_split cong: if_cong)

lemma on_distinct:
  assumes "distinct_keys d"
  shows "distinct_keys (on_core l d)" "distinct_keys (on_package l d)" "distinct_keys (on_fan l d)"
    "distinct_keys (on_composite l d)" "distinct_keys (on_temp a l d)"
  using assms by (simp_all add: on_defs distinct_keys_def distinct_update split: option.split)

lemma parse_line_distinct:
  "distinct_keys d \<Longrightarrow> distinct_keys (snd (parse_line (a, d) l))"
  by (simp add: parse_line.simps Let_def on_distinct if_distrib [of "\<lambda>x. distinct_keys (snd x)"]
        split del: if_split cong: if_cong)

lemma parse_lines_histories:
  "histories (snd (parse_lines ls (a, d))) = histories d"
proof (induction ls arbitrary: a d)
  case Nil
  then show ?case by (simp add: parse_lines_def)
next
  case (Cons l ls)
  obtain a' d' where step: "parse_line (a, d) l = (a', d')" by (cases "parse_line (a, d) l")
  with parse_line_histories [of a d l] have "histories d' = histories d" by simp
  with Cons.IH [of a' d'] step show ?case by (simp add: parse_lines_def)
qed

lemma parse_lines_distinct:
  "distinct_keys d \<Longrightarrow> distinct_keys (snd (parse_lines ls (a, d)))"
proof (induction ls arbitrary: a d)
  case Nil
  then show ?case by (simp add: parse_lines_def)
next
  case (Cons l ls)
  obtain a' d' where step: "parse_line (a, d) l = (a', d')" by (cases "parse_line (a, d) l")
  with parse_line_distinct [OF Cons.prems, of a l] have "distinct_keys d'" by simp
  from Cons.IH [OF this, of a'] step show ?case by (simp add: parse_lines_def)
qed

lemma parse_lines_current:
  "current d1 = current d2 \<Longrightarrow>
   current (snd (parse_lines ls (a, d1))) = current (snd (parse_lines ls (a, d2)))"
proof (induction ls arbitrary: a d1 d2)
  case Nil
  then show ?case by (simp add: parse_lines_def)
next
  case (Cons l ls)
  obtain a1 e1 where s1: "parse_line (a, d1) l = (a1, e1)" by (cases "parse_line (a, d1) l")
  obtain a2 e2 where s2: "parse_line (a, d2) l = (a2, e2)" by (cases "parse_line (a, d2) l")
  from parse_line_current [OF Cons.prems, of a l] s1 s2
  have "a1 = a2" "current e1 = current e2" by simp_all
  with Cons.IH [of e1 e2 a1] s1 s2 show ?case by (simp add: parse_lines_def)
qed

lemma parse_histories: "histories (parse_sensors_output output d) = histories d"
  by (simp add: parse_sensors_output_def parse_lines_histories)
    (simp add: histories_def clear_current_def)

lemma parse_distinct: "distinct_keys (parse_sensors_output output d)"
proof -
  have "distinct_keys (clear_current d)"
    by (simp add: distinct_keys_def clear_current_def)
  from parse_lines_distinct [OF this] show ?thesis
    by (simp add: parse_sensors_output_def)
qed

lemma parse_current: "current (parse_sensors_output output d) = current (parse_sensors_output output init)"
  unfolding parse_sensors_output_def
  by (rule parse_lines_current) (simp add: current_def clear_current_def)

lemma snapshot_current: "current d = current d' \<Longrightarrow> snapshot c d = snapshot c d'"
  by (cases c) (simp_all add: current_def)

lemma snapshot_parse: "snapshot c (parse_sensors_output output d) = parsed_snapshot c output"
  unfolding parsed_snapshot_def by (rule snapshot_current) (rule parse_current)

section \<open>Histories over a sequence of ticks\<close>

lemma as_reals_update:
  "as_reals (AList.update k q h) = AList.update k (map real_of_int q) (as_reals h)"
  by (induction h) (auto simp: as_reals_def)

lemma map_of_as_reals:
  "map_of (as_reals h) k = map_option (map real_of_int) (map_of h k)"
  by (induction h) (auto simp: as_reals_def)

lemma map_of_as_real:
  "map_of (as_real s) k = map_option real_of_int (map_of s k)"
  by (induction s) (auto simp: as_real_def)

lemma stored_as_reals: "stored (as_reals h) k = map real_of_int (stored h k)"
  by (simp add: stored_def map_of_as_reals split: option.split)

lemma map_deque_append: "map f (deque_append q v) = deque_append (map f q) (f v)"
  by (simp add: deque_append_def Let_def map_tl)

lemma as_reals_record_sample:
  "as_reals (record_sample h (k, v)) = record_sample (as_reals h) (k, real_of_int v)"
  by (simp add: record_sample_conv as_reals_update stored_as_reals map_deque_append)

lemma as_reals_foldl:
  "as_reals (foldl record_sample h s) = foldl record_sample (as_reals h) (as_real s)"
proof (induction s arbitrary: h)
  case Nil
  then show ?case by (simp add: as_real_def)
next
  case (Cons p s)
  obtain k v where p: "p = (k, v)" by (cases p)
  have "as_real (p # s) = (k, real_of_int v) # as_real s"
    using p by (simp add: as_real_def)
  with Cons.IH [of "record_sample h (k, v)"] p show ?case
    by (simp add: as_reals_record_sample)
qed

lemma history_update_histories:
  "history c (update_histories d) = foldl record_sample (history c d) (snapshot c d)"
  by (cases c) (simp_all add: update_histories_def as_reals_foldl)

lemma history_histories: "histories d = histories d' \<Longrightarrow> history c d = history c d'"
  by (cases c) (simp_all add: histories_def)

lemma history_parse: "history c (parse_sensors_output out d) = history c d"
  by (rule history_histories) (rule parse_histories)

lemma as_real_keys: "map fst (as_real s) = map fst s"
  by (induction s) (auto simp: as_real_def)

lemma snapshot_distinct: "distinct_keys d \<Longrightarrow> distinct (map fst (snapshot c d))"
  by (cases c) (simp_all add: distinct_keys_def as_real_keys)

lemma parsed_snapshot_distinct: "distinct (map fst (parsed_snapshot c out))"
  unfolding parsed_snapshot_def by (rule snapshot_distinct) (rule parse_distinct)

lemma history_tick:
  "history c (snd (update (Inr out) d)) =
   foldl record_sample (history c d) (parsed_snapshot c out)"
  by (simp add: update_def history_update_histories history_parse snapshot_parse)

lemma map_of_history_tick:
  "map_of (history c (snd (update (Inr out) d))) key =
   (case map_of (parsed_snapshot c out) key of
      None \<Rightarrow> map_of (history c d) key
    | Some v \<Rightarrow> Some (deque_append (stored (history c d) key) v))"
proof (cases "map_of (parsed_snapshot c out) key")
  case None
  then have "key \<notin> fst ` set (parsed_snapshot c out)"
    by (simp add: map_of_eq_None_iff)
  from map_of_foldl_absent [OF this] None show ?thesis
    by (simp add: history_tick)
next
  case (Some v)
  from map_of_foldl_present [OF parsed_snapshot_distinct Some] Some show ?thesis
    by (simp add: history_tick)
qed

lemma ticks_snoc: "ticks (sources @ [src]) d = snd (update src (ticks sources d))"
  by (simp add: ticks_def)

lemma samples_snoc:
  "samples c key (sources @ [src]) =
   samples c key sources @
   (case src of Inl e \<Rightarrow> []
    | Inr out \<Rightarrow> (case map_of (parsed_snapshot c out) key of None \<Rightarrow> [] | Some v \<Rightarrow> [v]))"
  by (simp add: samples_def)

lemma update_failed: "update (Inl e) d = (False, d)"
  by (simp add: update_def)

lemma ticks_stored:
  assumes "length (stored (history c d) key) \<le> 60"
  shows "stored (history c (ticks sources d)) key =
         last_n 60 (stored (history c d) key @ samples c key sources)"
proof (induction sources rule: rev_induct)
  case Nil
  from assms show ?case by (simp add: ticks_def samples_def last_n_short)
next
  case (snoc src sources)
  let ?d = "ticks sources d"
  show ?case
  proof (cases src)
    case (Inl e)
    with snoc show ?thesis by (simp add: ticks_snoc samples_snoc update_failed)
  next
    case (Inr out)
    show ?thesis
    proof (cases "map_of (parsed_snapshot c out) key")
      case None
      with Inr snoc show ?thesis
        by (simp add: ticks_snoc samples_snoc stored_def map_of_history_tick)
    next
      case (Some v)
      have len: "length (stored (history c ?d) key) \<le> 60"
        by (simp add: snoc last_n_length)
      have "stored (history c (ticks (sources @ [src]) d)) key =
            deque_append (stored (history c ?d) key) v"
        using Inr Some by (simp add: ticks_snoc stored_def map_of_history_tick)
      also have "\<dots> = last_n 60 (stored (history c ?d) key @ [v])"
        by (rule deque_append_last_n [OF len])
      also have "\<dots> = last_n 60 ((stored (history c d) key @ samples c key sources) @ [v])"
        by (simp only: snoc last_n_snoc)
      finally show ?thesis using Inr Some by (simp add: samples_snoc)
    qed
  qed
qed

lemma ticks_absent:
  "map_of (history c (ticks sources d)) key = None \<longleftrightarrow>
   map_of (history c d) key = None \<and> samples c key sources = []"
proof (induction sources rule: rev_induct)
  case Nil
  show ?case by (simp add: ticks_def samples_def)
next
  case (snoc src sources)
  show ?case
  proof (cases src)
    case (Inl e)
    with snoc show ?thesis by (simp add: ticks_snoc samples_snoc update_failed)
  next
    case (Inr out)
    with snoc show ?thesis
      by (cases "map_of (parsed_snapshot c out) key")
        (simp_all add: ticks_snoc samples_snoc map_of_history_tick)
  qed
qed

lemma ticks_omitted:
  "samples c key sources = [] \<Longrightarrow>
   map_of (history c (ticks sources d)) key = map_of (history c d) key"
proof (induction sources rule: rev_induct)
  case Nil
  show ?case by (simp add: ticks_def)
next
  case (snoc src sources)
  from snoc.prems have rest: "samples c key sources = []" by (simp add: samples_snoc)
  show ?case
  proof (cases src)
    case (Inl e)
    with snoc.IH [OF rest] show ?thesis by (simp add: ticks_snoc update_failed)
  next
    case (Inr out)
    with snoc.prems have "map_of (parsed_snapshot c out) key = None"
      by (simp add: samples_snoc split: option.splits)
    with Inr snoc.IH [OF rest] show ?thesis
      by (simp add: ticks_snoc map_of_history_tick)
  qed
qed

lemma ticks_keys: "fst ` set (history c d) \<subseteq> fst ` set (history c (ticks sources d))"
proof (induction sources rule: rev_induct)
  case Nil
  show ?case by (simp add: ticks_def)
next
  case (snoc src sources)
  show ?case
  proof (cases src)
    case (Inl e)
    with snoc show ?thesis by (simp add: ticks_snoc update_failed)
  next
    case (Inr out)
    with snoc show ?thesis
      by (auto simp: ticks_snoc history_tick dom_foldl_record)
  qed
qed

lemma init_history: "history c init = []"
  by (cases c) (simp_all add: init_def as_reals_def)

lemma ticks_init:
  "map_of (history c (ticks sources init)) key =
   (if samples c key sources = [] then None else Some (last_n 60 (samples c key sources)))"
proof (cases "samples c key sources = []")
  case True
  then show ?thesis using ticks_absent [of c sources init key]
    by (simp add: init_history)
next
  case False
  with ticks_absent [of c sources init key]
  obtain h where h: "map_of (history c (ticks sources init)) key = Some h"
    by (auto simp: init_history)
  have "stored (history c (ticks sources init)) key = last_n 60 (samples c key sources)"
    using ticks_stored [of c init key sources] by (simp add: init_history stored_def)
  with h False show ?thesis by (simp add: stored_def)
qed

section \<open>The store: ring buffer, padding, failure, persistence\<close>

lemma samples_empty_iff:
  "samples c key sources = [] \<longleftrightarrow>
   (\<forall>out. Inr out \<in> set sources \<longrightarrow> map_of (parsed_snapshot c out) key = None)"
proof (induction sources)
  case Nil
  show ?case by (simp add: samples_def)
next
  case (Cons src sources)
  have "samples c key (src # sources) = samples c key [src] @ samples c key sources"
    by (simp add: samples_def)
  with Cons show ?case
    by (cases src) (auto simp: samples_def split: option.splits)
qed

lemma padded_total:
  "h \<noteq> [] \<Longrightarrow> length h \<le> 60 \<Longrightarrow> \<exists>view. padded h = Inr view \<and> length view = 60"
  by (cases h) (auto simp: padded_def)

lemma concat_replicate_single: "concat (replicate n [x]) = replicate n x"
  by (induction n) simp_all

text \<open>
  C1. Ring-buffer bound. From the start of the process, after any sequence of ticks, a channel
  that received the values \<open>vs\<close> (one from each ingested snapshot that contains it, \<open>N\<close> of
  them, \<open>N > 0\<close>) has a history of length \<open>min N 60\<close>, never more than 60, holding the last
  60 of them in the order they were appended, oldest first. This holds in every category.
\<close>

theorem ring_buffer_bound:
  assumes "samples c key sources = vs" and "vs \<noteq> []"
  shows "\<exists>h. map_of (history c (ticks sources init)) key = Some h \<and>
             length h = min (length vs) 60 \<and> length h \<le> 60 \<and>
             h = drop (length vs - 60) vs"
  using assms ticks_init [of c sources key] by (auto simp: last_n_def)

theorem ring_buffer_bound_witness:
  "samples CpuTemperature ''Core 0''
     (Inr (core_line ''41.0'') # Inl OSError # replicate 60 (Inr (core_line ''45.5''))) =
     41 # replicate 60 (91 / 2) \<and>
   (\<exists>h. map_of (history CpuTemperature
              (ticks (Inr (core_line ''41.0'') # Inl OSError # replicate 60 (Inr (core_line ''45.5''))) init))
           ''Core 0'' = Some h \<and> length h = 60 \<and> h = replicate 60 (91 / 2))"
proof -
  let ?srcs = "Inr (core_line ''41.0'') # Inl OSError # replicate 60 (Inr (core_line ''45.5''))"
  have one: "map_of (parsed_snapshot CpuTemperature (core_line ''41.0'')) ''Core 0'' = Some 41"
    by code_simp
  have two: "map_of (parsed_snapshot CpuTemperature (core_line ''45.5'')) ''Core 0'' = Some (91 / 2)"
    by code_simp
  have s: "samples CpuTemperature ''Core 0'' ?srcs = 41 # replicate 60 (91 / 2)"
    by (simp add: samples_def one two concat_replicate_single)
  from ring_buffer_bound [OF s] s show ?thesis by simp
qed

text \<open>
  C2. Left-pad correctness. For a history \<open>[v1, ..., vk]\<close> with \<open>0 < k < 60\<close>, the series
  \<open>_update_plot\<close> draws is \<open>v1\<close> repeated \<open>60 - k\<close> times followed by the history, of
  length 60.
\<close>

theorem left_pad:
  assumes "h = v1 # rest" and "length h < 60"
  shows "padded h = Inr (replicate (60 - length h) v1 @ h) \<and>
         length (replicate (60 - length h) v1 @ h) = 60"
  using assms by (simp add: padded_def)

theorem left_pad_witness:
  "padded [7, 8, 9 :: int] = Inr (replicate 57 7 @ [7, 8, 9]) \<and>
   length (replicate 57 (7 :: int) @ [7, 8, 9]) = 60"
  using left_pad [of "[7, 8, 9 :: int]" 7 "[8, 9]"] by simp

lemma ticks_append: "ticks (xs @ ys) d = ticks ys (ticks xs d)"
  by (simp add: ticks_def)

lemma ticks_failures: "ticks (map Inl es) d = d"
  by (induction es) (simp_all add: ticks_def update_def)

text \<open>
  C3. Acquisition-failure atomicity. When the raw-text source raises, \<open>update\<close> returns
  \<open>False\<close> and the object is unchanged: histories, current snapshot and fan capacities are
  those of the tick before, so a sequence of ticks followed by any number of failing ones
  ends in the state the sequence ended in.
\<close>

theorem acquisition_failure_atomic:
  "update (Inl e) d = (False, d) \<and>
   ticks (sources @ [Inl e]) d = ticks sources d \<and>
   ticks (sources @ map Inl es) d = ticks sources d"
  using ticks_failures [of "[e]" "ticks sources d"]
  by (simp add: update_def ticks_append ticks_failures)

text \<open>
  C5. Channel persistence. In every category, a key with a history keeps that history,
  unchanged, over any number of ticks whose snapshots omit the key (ticks whose source
  failed included), and the set of keys with a history only grows.
\<close>

theorem channel_persistence:
  "((\<forall>out. Inr out \<in> set sources \<longrightarrow> map_of (parsed_snapshot c out) key = None) \<and>
    map_of (history c d) key = Some h \<longrightarrow>
    map_of (history c (ticks sources d)) key = Some h) \<and>
   fst ` set (history c d) \<subseteq> fst ` set (history c (ticks sources d))"
  using ticks_omitted [of c key sources d] ticks_keys [of c d sources]
  by (simp add: samples_empty_iff)

theorem channel_persistence_witness:
  "map_of (history CpuTemperature (ticks [Inr (core_line ''41.0'')] init)) ''Core 0'' = Some [41] \<and>
   map_of (history CpuTemperature
       (ticks [Inr fan_line, Inl OSError, Inr fan_line] (ticks [Inr (core_line ''41.0'')] init)))
     ''Core 0'' = Some [41]"
proof -
  have before: "map_of (history CpuTemperature (ticks [Inr (core_line ''41.0'')] init)) ''Core 0'' = Some [41]"
    by code_simp
  have omit: "map_of (parsed_snapshot CpuTemperature fan_line) ''Core 0'' = None"
    by code_simp
  have "\<forall>out. Inr out \<in> set [Inr fan_line, Inl OSError, Inr fan_line] \<longrightarrow>
          map_of (parsed_snapshot CpuTemperature out) ''Core 0'' = None"
    using omit by simp
  with before channel_persistence [of "[Inr fan_line, Inl OSError, Inr fan_line]" CpuTemperature
      "''Core 0''" "ticks [Inr (core_line ''41.0'')] init" "[41]"]
  show ?thesis by blast
qed

text \<open>
  C10. Every history of the store is non-empty. From the start of the process, after any
  sequence of ticks, a history under any key of any category holds between 1 and 60
  values, and the padded series \<open>_update_plot\<close> reads from it is defined, of length 60.
\<close>

theorem histories_nonempty:
  assumes "map_of (history c (ticks sources init)) key = Some h"
  shows "h \<noteq> [] \<and> 1 \<le> length h \<and> length h \<le> 60 \<and>
         (\<exists>view. padded h = Inr view \<and> length view = 60)"
proof -
  from assms ticks_init [of c sources key]
  have ne: "samples c key sources \<noteq> []" and h: "h = last_n 60 (samples c key sources)"
    by (auto split: if_splits)
  have len: "length h = min (length (samples c key sources)) 60"
    by (simp add: h last_n_length)
  from ne have "0 < length h" unfolding len by (cases "samples c key sources") simp_all
  then have "h \<noteq> []" by simp
  moreover have "length h \<le> 60" by (simp add: len)
  ultimately have "h \<noteq> []" "length h \<le> 60" by simp_all
  with padded_total [of h] show ?thesis by (cases h) auto
qed

theorem histories_nonempty_witness:
  "map_of (history FanSpeed (ticks [Inr fan_line] init)) ''fan1'' = Some [2125] \<and>
   [2125 :: real] \<noteq> [] \<and> (\<exists>view. padded [2125 :: real] = Inr view \<and> length view = 60)"
proof -
  have r: "map_of (history FanSpeed (ticks [Inr fan_line] init)) ''fan1'' = Some [2125]"
    by code_simp
  from histories_nonempty [OF r] r show ?thesis by simp
qed

section \<open>Fan capacities\<close>

lemma on_max_fan_speeds:
  "max_fan_speeds (on_core l d) = max_fan_speeds d"
  "max_fan_speeds (on_package l d) = max_fan_speeds d"
  "max_fan_speeds (on_composite l d) = max_fan_speeds d"
  "max_fan_speeds (on_temp a l d) = max_fan_speeds d"
  by (simp_all add: on_defs split: option.split)

lemma store_max_speed_other:
  "fan' \<noteq> fan \<Longrightarrow> map_of (store_max_speed fan' ms maxes) fan = map_of maxes fan"
  by (simp add: store_max_speed_def update_conv' split: option.split)

lemma store_max_speed_kept:
  "map_of maxes fan = Some cap \<Longrightarrow> map_of (store_max_speed fan None maxes) fan = Some cap"
  by (simp add: store_max_speed_def)

lemma on_fan_retains:
  assumes "map_of (max_fan_speeds d) fan = Some cap" and "\<not> gives_max fan l"
  shows "map_of (max_fan_speeds (on_fan l d)) fan = Some cap"
proof (cases "search fan_rx l")
  case None
  with assms show ?thesis by (simp add: on_fan_def)
next
  case (Some m)
  show ?thesis
  proof (cases "map_of m 1 = Some fan")
    case True
    with assms(2) Some have "map_of m 3 = None" by (simp add: gives_max_def)
    with Some True assms(1) show ?thesis
      by (simp add: on_fan_def store_max_speed_kept split: option.split)
  next
    case False
    with Some assms(1) show ?thesis
      by (auto simp: on_fan_def store_max_speed_other split: option.split)
  qed
qed

lemma parse_line_retains:
  assumes "map_of (max_fan_speeds d) fan = Some cap" and "\<not> gives_max fan (strip raw)"
  shows "map_of (max_fan_speeds (snd (parse_line (a, d) raw))) fan = Some cap"
  by (simp add: parse_line.simps Let_def on_max_fan_speeds on_fan_retains [OF assms] assms(1)
        if_distrib [of "\<lambda>x. map_of (max_fan_speeds (snd x)) fan"]
        split del: if_split cong: if_cong)

lemma parse_lines_retains:
  "map_of (max_fan_speeds d) fan = Some cap \<Longrightarrow>
   \<forall>raw \<in> set ls. \<not> gives_max fan (strip raw) \<Longrightarrow>
   map_of (max_fan_speeds (snd (parse_lines ls (a, d)))) fan = Some cap"
proof (induction ls arbitrary: a d)
  case Nil
  then show ?case by (simp add: parse_lines_def)
next
  case (Cons l ls)
  obtain a' d' where step: "parse_line (a, d) l = (a', d')" by (cases "parse_line (a, d) l")
  from Cons.prems have "\<not> gives_max fan (strip l)" by simp
  from parse_line_retains [OF Cons.prems(1) this, of a] step
  have "map_of (max_fan_speeds d') fan = Some cap" by simp
  from Cons.IH [OF this, of a'] Cons.prems(2) step show ?case
    by (simp add: parse_lines_def)
qed

text \<open>
  C4. Capacity retention. When a fan has a stored capacity and no line of a later raw text
  gives that fan a max-RPM clause (\<open>gives_max\<close>: the pattern matches the line for this fan
  with its third group set), parsing that text, and the whole tick, leave the stored capacity
  of the fan as it was; it does not go back to the default 4000.
\<close>

theorem capacity_retention:
  assumes "map_of (max_fan_speeds d) fan = Some cap"
    and "\<forall>raw \<in> set (splitlines out). \<not> gives_max fan (strip raw)"
  shows "map_of (max_fan_speeds (parse_sensors_output out d)) fan = Some cap
         \<and> map_of (max_fan_speeds (snd (update (Inr out) d))) fan = Some cap"
proof -
  have "map_of (max_fan_speeds (clear_current d)) fan = Some cap"
    using assms(1) by (simp add: clear_current_def)
  from parse_lines_retains [OF this assms(2)] show ?thesis
    by (simp add: parse_sensors_output_def update_def update_histories_def)
qed

theorem capacity_retention_witness:
  "map_of (max_fan_speeds (parse_sensors_output fan_line init)) ''fan1'' = Some 3700 \<and>
   map_of (fan_speeds (parse_sensors_output fan_line_no_clause (parse_sensors_output fan_line init)))
     ''fan1'' = Some 2000 \<and>
   map_of (max_fan_speeds (parse_sensors_output fan_line_no_clause (parse_sensors_output fan_line init)))
     ''fan1'' = Some 3700"
proof -
  have learned: "map_of (max_fan_speeds (parse_sensors_output fan_line init)) ''fan1'' = Some 3700"
    by code_simp
  have lacks: "\<forall>raw \<in> set (splitlines fan_line_no_clause). \<not> gives_max ''fan1'' (strip raw)"
    by code_simp
  have speed: "map_of (fan_speeds (parse_sensors_output fan_line_no_clause
      (parse_sensors_output fan_line init))) ''fan1'' = Some 2000"
    by code_simp
  from capacity_retention [OF learned lacks] learned speed show ?thesis by simp
qed

section \<open>Adapter context and fan lines\<close>






lemma on_storage_temps:
  "storage_temps (on_core l d) = storage_temps d"
  "storage_temps (on_package l d) = storage_temps d"
  "storage_temps (on_fan l d) = storage_temps d"
  "storage_temps (on_temp a l d) = storage_temps d"
  by (simp_all add: on_defs split: option.split)






text \<open>
  The percentage of \<open>_update_fan_indicators\<close> is the formula of the normalization wherever the
  capacity is not zero; it is about 57.4 for the fan line with capacity 3700, and a clause
  \<open>max = 0 RPM\<close> stores the capacity 0, on which the division raises.
\<close>

lemma fan_percentage_formula:
  "fan_percentage d fan speed =
     (let capacity = (case map_of (max_fan_speeds d) fan of Some m \<Rightarrow> m | None \<Rightarrow> 4000)
      in if capacity = 0 then Inl ZeroDivisionError
         else Inr (min 100 (100 * real_of_int speed / real_of_int capacity)))"
  by (simp add: fan_percentage_def Let_def mult.commute)

lemma fan_percentage_learned:
  "max_fan_speeds (parse_sensors_output fan_line init) = [(''fan1'', 3700)] \<and>
   fan_percentage (parse_sensors_output fan_line init) ''fan1'' 2125 = Inr (2125 / 37) \<and>
   (574 / 10 :: real) \<le> 2125 / 37 \<and> (2125 / 37 :: real) < 575 / 10"
proof -
  have m: "max_fan_speeds (parse_sensors_output fan_line init) = [(''fan1'', 3700)]"
    by code_simp
  show ?thesis by (simp add: m fan_percentage_def)
qed

lemma fan_percentage_zero_capacity:
  "max_fan_speeds (parse_sensors_output fan_line_zero_max init) = [(''fan3'', 0)] \<and>
   fan_percentage (parse_sensors_output fan_line_zero_max init) ''fan3'' 900 = Inl ZeroDivisionError"
proof -
  have m: "max_fan_speeds (parse_sensors_output fan_line_zero_max init) = [(''fan3'', 0)]"
    by code_simp
  show ?thesis by (simp add: m fan_percentage_def)
qed

text \<open>
  C7. Fan normalization, at the line \<open>fan2:        1000 RPM\<close> of the claim. The pattern asks for
  whitespace after \<open>RPM\<close>, and the line has been stripped, so the search fails: no fan
  speed, no capacity and no history are stored for \<open>fan2\<close>, and no percentage is computed
  for it, though the default capacity 4000 would give 25 percent for 1000 RPM.
\<close>

theorem fan_without_clause_unparsed:
  "search fan_rx fan_line_bare = None \<and>
   fan_speeds (parse_sensors_output fan_line_bare init) = [] \<and>
   max_fan_speeds (parse_sensors_output fan_line_bare init) = [] \<and>
   fan_speed_history (snd (update (Inr fan_line_bare) init)) = [] \<and>
   fan_percentage init ''fan2'' 1000 = Inr 25"
proof -
  have "search fan_rx fan_line_bare = None \<and>
      fan_speeds (parse_sensors_output fan_line_bare init) = [] \<and>
      max_fan_speeds (parse_sensors_output fan_line_bare init) = [] \<and>
      fan_speed_history (snd (update (Inr fan_line_bare) init)) = []"
    by code_simp
  moreover have "fan_percentage init ''fan2'' 1000 = Inr 25"
    by (simp add: fan_percentage_def init_def)
  ultimately show ?thesis by simp
qed

section \<open>First matches of the patterns\<close>

lemma search_first: "first_match r ([], s) = Some (g, s') \<Longrightarrow> search r s = Some g"
  by (cases s) (auto simp: first_match_def split: list.splits)

lemma starts_with_self: "starts_with l (l @ s)"
  by (induction l) simp_all

lemma first_Lit: "first_match (Lit l) (g, l @ s) = Some (g, s)"
  by (simp add: first_match_def starts_with_self)

lemma first_Plus:
  assumes "xs \<noteq> []" and "list_all (in_class cl) xs" and "s = [] \<or> \<not> in_class cl (hd s)"
  shows "first_match (Plus cl) (g, xs @ s) = Some (g, s)"
proof -
  from assms(3) have "takeWhile (in_class cl) s = []" by (cases s) auto
  with assms(2) have tw: "takeWhile (in_class cl) (xs @ s) = xs"
    by (simp add: takeWhile_append2 list_all_iff)
  from assms(1) obtain n where n: "length xs = Suc n" by (cases xs) auto
  have "rev [1 ..< Suc (Suc n)] = Suc n # rev [1 ..< Suc n]" by simp
  with tw n show ?thesis by (simp add: first_match_def del: upt_Suc)
qed

lemma first_Seq:
  assumes "first_match a st = Some x" and "first_match b x = Some y"
  shows "first_match (Seq a b) st = Some y"
proof -
  obtain g s where st: "st = (g, s)" by (cases st)
  from assms(1) obtain xs where a: "rmatch a st = x # xs"
    by (auto simp: first_match_def split: list.splits)
  from assms(2) obtain ys where b: "rmatch b x = y # ys"
    by (auto simp: first_match_def split: list.splits)
  from a b st show ?thesis by (simp add: first_match_def)
qed

lemma first_Group:
  assumes "first_match a (g, xs @ s') = Some (g', s')"
  shows "first_match (Group n a) (g, xs @ s') = Some (AList.update n xs g', s')"
proof -
  from assms obtain rs where "rmatch a (g, xs @ s') = (g', s') # rs"
    by (auto simp: first_match_def split: list.splits)
  then show ?thesis by (simp add: first_match_def)
qed

lemma first_Nil: "first_match (Lit []) st = Some st"
  by (cases st) (simp add: first_match_def)

lemma seqs_Cons: "seqs (r # rs) = Seq r (seqs rs)"
  by (simp add: seqs_def)

lemma seqs_Nil: "seqs [] = Lit []"
  by (simp add: seqs_def)

lemma not_digit: "\<not> isdigit (CHR '':'')" "\<not> isdigit (CHR ''.'')" "\<not> isdigit degree"
  "\<not> isdigit (CHR '' '')"
  by (simp_all add: isdigit_def degree_def)

lemma not_space: "\<not> isspace (CHR ''+'')"
  by (simp add: isspace_def)

lemma first_digits:
  assumes "digits xs" and "s = [] \<or> \<not> isdigit (hd s)"
  shows "first_match (Plus Digit) (g, xs @ s) = Some (g, s)"
proof (rule first_Plus)
  from assms(1) show "xs \<noteq> []" by (simp add: digits_def)
  from assms(1) show "list_all (in_class Digit) xs"
    by (simp add: digits_def list_all_iff)
  from assms(2) show "s = [] \<or> \<not> in_class Digit (hd s)" by simp
qed

lemma first_spaces:
  assumes "spaces xs" and "s = [] \<or> \<not> isspace (hd s)"
  shows "first_match (Plus Space) (g, xs @ s) = Some (g, s)"
proof (rule first_Plus)
  from assms(1) show "xs \<noteq> []" by (simp add: spaces_def)
  from assms(1) show "list_all (in_class Space) xs"
    by (simp add: spaces_def list_all_iff)
  from assms(2) show "s = [] \<or> \<not> in_class Space (hd s)" by simp
qed

lemma first_decimal:
  assumes "digits a" and "digits b" and "s = [] \<or> \<not> isdigit (hd s)"
  shows "first_match (Group n (seqs [Plus Digit, Lit ''.'', Plus Digit])) (g, (a @ ''.'' @ b) @ s) =
         Some (AList.update n (a @ ''.'' @ b) g, s)"
proof (rule first_Group)
  have 1: "first_match (Plus Digit) (g, a @ (''.'' @ b @ s)) = Some (g, ''.'' @ b @ s)"
    by (rule first_digits [OF assms(1)]) (simp add: not_digit)
  have 2: "first_match (Lit ''.'') (g, ''.'' @ b @ s) = Some (g, b @ s)"
    by (rule first_Lit)
  have 3: "first_match (Plus Digit) (g, b @ s) = Some (g, s)"
    by (rule first_digits [OF assms(2) assms(3)])
  have e: "seqs [Plus Digit, Lit ''.'', Plus Digit] =
           Seq (Plus Digit) (Seq (Lit ''.'') (Seq (Plus Digit) (Lit [])))"
    by (simp add: seqs_def)
  have "first_match (seqs [Plus Digit, Lit ''.'', Plus Digit]) (g, a @ (''.'' @ b @ s)) = Some (g, s)"
    unfolding e
    by (rule first_Seq [OF 1], rule first_Seq [OF 2], rule first_Seq [OF 3], rule first_Nil)
  then show "first_match (seqs [Plus Digit, Lit ''.'', Plus Digit]) (g, (a @ ''.'' @ b) @ s) = Some (g, s)"
    by simp
qed

lemma first_celsius:
  assumes "digits a" and "digits b"
  shows "first_match (seqs (celsius_rx n)) (g, ''+'' @ (a @ ''.'' @ b) @ [degree] @ ''C'' @ rest) =
         Some (AList.update n (a @ ''.'' @ b) g, rest)"
proof -
  let ?v = "a @ ''.'' @ b"
  let ?g = "AList.update n ?v g"
  have 1: "first_match (Lit ''+'') (g, ''+'' @ ?v @ [degree] @ ''C'' @ rest) =
           Some (g, ?v @ [degree] @ ''C'' @ rest)"
    by (rule first_Lit)
  have 2: "first_match (Group n (seqs [Plus Digit, Lit ''.'', Plus Digit]))
             (g, ?v @ [degree] @ ''C'' @ rest) = Some (?g, [degree] @ ''C'' @ rest)"
    by (rule first_decimal [OF assms]) (simp add: not_digit)
  have 3: "first_match (Lit [degree]) (?g, [degree] @ ''C'' @ rest) = Some (?g, ''C'' @ rest)"
    by (rule first_Lit)
  have 4: "first_match (Lit ''C'') (?g, ''C'' @ rest) = Some (?g, rest)"
    by (rule first_Lit)
  have e: "seqs (celsius_rx n) =
           Seq (Lit ''+'') (Seq (Group n (seqs [Plus Digit, Lit ''.'', Plus Digit]))
             (Seq (Lit [degree]) (Seq (Lit ''C'') (Lit []))))"
    by (simp add: celsius_rx_def seqs_def)
  show ?thesis
    unfolding e
    by (rule first_Seq [OF 1], rule first_Seq [OF 2], rule first_Seq [OF 3],
        rule first_Seq [OF 4], rule first_Nil)
qed

section \<open>CPU core temperatures\<close>

lemma contains_prefix: "contains sub (sub @ s)"
proof (cases "sub @ s")
  case Nil
  then show ?thesis by simp
next
  case (Cons c cs)
  with starts_with_self [of sub s] show ?thesis by simp
qed

lemma contains_mid: "contains sub (xs @ sub @ ys)"
  by (induction xs) (simp_all add: contains_prefix)

lemma first_core:
  assumes "digits n" and "spaces ws" and "digits a" and "digits b"
  shows "first_match core_rx ([], core_text n ws a b rest) =
         Some ([(1, ''Core '' @ n), (2, a @ ''.'' @ b)], rest)"
proof -
  let ?t3 = "''+'' @ (a @ ''.'' @ b) @ [degree] @ ''C'' @ rest"
  let ?t2 = "ws @ ?t3"
  let ?t1 = "'':'' @ ?t2"
  let ?g = "[(1, ''Core '' @ n)]"
  have e: "core_rx = Seq (Group 1 (seqs [Lit ''Core '', Plus Digit]))
             (Seq (Lit '':'') (Seq (Plus Space) (seqs (celsius_rx 2))))"
    by (simp add: core_rx_def seqs_def)
  have e1: "seqs [Lit ''Core '', Plus Digit] = Seq (Lit ''Core '') (Seq (Plus Digit) (Lit []))"
    by (simp add: seqs_def)
  have a1: "first_match (Lit ''Core '') ([], ''Core '' @ n @ ?t1) = Some ([], n @ ?t1)"
    by (rule first_Lit)
  have a2: "first_match (Plus Digit) ([], n @ ?t1) = Some ([], ?t1)"
    by (rule first_digits [OF assms(1)]) (simp add: not_digit)
  have "first_match (seqs [Lit ''Core '', Plus Digit]) ([], ''Core '' @ n @ ?t1) = Some ([], ?t1)"
    unfolding e1 by (rule first_Seq [OF a1], rule first_Seq [OF a2], rule first_Nil)
  then have "first_match (seqs [Lit ''Core '', Plus Digit]) ([], (''Core '' @ n) @ ?t1) = Some ([], ?t1)"
    by simp
  from first_Group [OF this, of 1]
  have 1: "first_match (Group 1 (seqs [Lit ''Core '', Plus Digit])) ([], (''Core '' @ n) @ ?t1) =
           Some (?g, ?t1)"
    by simp
  have 2: "first_match (Lit '':'') (?g, ?t1) = Some (?g, ?t2)"
    by (rule first_Lit)
  have 3: "first_match (Plus Space) (?g, ?t2) = Some (?g, ?t3)"
    by (rule first_spaces [OF assms(2)]) (simp add: not_space)
  have 4: "first_match (seqs (celsius_rx 2)) (?g, ?t3) = Some (AList.update 2 (a @ ''.'' @ b) ?g, rest)"
    by (rule first_celsius [OF assms(3) assms(4)])
  have "first_match core_rx ([], (''Core '' @ n) @ ?t1) = Some (AList.update 2 (a @ ''.'' @ b) ?g, rest)"
    unfolding e by (rule first_Seq [OF 1], rule first_Seq [OF 2], rule first_Seq [OF 3], rule 4)
  then show ?thesis by (simp add: core_text_def)
qed

lemma search_core:
  assumes "digits n" and "spaces ws" and "digits a" and "digits b"
  shows "search core_rx (core_text n ws a b rest) = Some [(1, ''Core '' @ n), (2, a @ ''.'' @ b)]"
  by (rule search_first [OF first_core [OF assms]])

lemma digits_no_point: "digits a \<Longrightarrow> x \<in> set a \<Longrightarrow> x \<noteq> CHR ''.''"
  using not_digit(2) by (auto simp: digits_def list_all_iff)

lemma float_of_decimal_digits:
  assumes "digits a"
  shows "float_of_decimal (a @ ''.'' @ b) =
         real_of_int (int_of_digits a) + real_of_int (int_of_digits b) / 10 ^ length b"
proof -
  have "takeWhile (\<lambda>c. c \<noteq> CHR ''.'') (a @ ''.'' @ b) = a"
    using digits_no_point [OF assms] by (simp add: takeWhile_append2)
  moreover have "dropWhile (\<lambda>c. c \<noteq> CHR ''.'') (a @ ''.'' @ b) = ''.'' @ b"
    using digits_no_point [OF assms] by (simp add: dropWhile_append2)
  ultimately show ?thesis by (simp add: float_of_decimal_def Let_def)
qed

lemma int_of_digits_nonneg: "0 \<le> int_of_digits s"
  by (simp add: int_of_digits_def)

lemma float_of_decimal_nonneg: "digits a \<Longrightarrow> 0 \<le> float_of_decimal (a @ ''.'' @ b)"
  using float_of_decimal_digits [of a b] int_of_digits_nonneg [of a] int_of_digits_nonneg [of b]
  by simp

lemma splitlines_from_plain:
  "list_all (\<lambda>c. \<not> is_linebreak c) s \<Longrightarrow>
   splitlines_from cur s = (if cur @ s = [] then [] else [cur @ s])"
proof (induction cur s rule: splitlines_from.induct)
  case (1 cur)
  then show ?case by simp
next
  case (2 cur c)
  then show ?case by simp
next
  case (3 cur c d cs)
  have "is_linebreak (CHR 0x0D)" by (simp add: is_linebreak_def)
  with 3 show ?case by auto
qed

lemma splitlines_single:
  "raw \<noteq> [] \<Longrightarrow> list_all (\<lambda>c. \<not> is_linebreak c) raw \<Longrightarrow> splitlines raw = [raw]"
  by (simp add: splitlines_def splitlines_from_plain)

lemma strip_nonempty: "strip raw \<noteq> [] \<Longrightarrow> raw \<noteq> []"
  by (auto simp: strip_def)

lemma parse_single_line:
  assumes "strip raw \<noteq> []" and "list_all (\<lambda>c. \<not> is_linebreak c) raw"
  shows "parse_sensors_output raw d = snd (parse_line (''unknown'', clear_current d) raw)"
  using splitlines_single [OF strip_nonempty [OF assms(1)] assms(2)]
  by (simp add: parse_sensors_output_def parse_lines_def)

lemma core_line_step:
  assumes "digits n" and "spaces ws" and "digits a" and "digits b"
    and "strip raw = core_text n ws a b rest"
    and "\<not> contains ''Adapter:'' (strip raw)"
  shows "parse_line (adapter, d) raw =
         (adapter, d\<lparr>cpu_temps :=
            AList.update (''Core '' @ n) (float_of_decimal (a @ ''.'' @ b)) (cpu_temps d)\<rparr>)"
proof -
  let ?line = "core_text n ws a b rest"
  have ne: "?line \<noteq> []" by (simp add: core_text_def)
  have c1: "contains ''Core'' ?line" by (simp add: core_text_def)
  have "?line = (''Core '' @ n @ '':'' @ ws @ ''+'' @ a @ ''.'' @ b) @ celsius @ rest"
    by (simp add: core_text_def celsius_def)
  then have c2: "contains celsius ?line" by (simp only: contains_mid)
  have "on_core ?line d =
        d\<lparr>cpu_temps := AList.update (''Core '' @ n) (float_of_decimal (a @ ''.'' @ b)) (cpu_temps d)\<rparr>"
    by (simp add: on_core_def search_core [OF assms(1-4)])
  with ne c1 c2 assms(5,6) show ?thesis
    by (simp add: parse_line.simps Let_def)
qed

text \<open>
  C6, for values signed \<open>+\<close>. A line that, stripped, reads \<open>Core N:\<close>, whitespace, \<open>+\<close>, a decimal
  \<open>a.b\<close>, the degree sign and \<open>C\<close>, then anything, and that does not contain \<open>Adapter:\<close>,
  stores exactly one CpuTemperature sample: key \<open>Core N\<close>, value the non-negative decimal
  \<open>a.b\<close>. Parsed alone, the line gives a snapshot with that one sample and nothing else.
\<close>

theorem core_temperature_parsed:
  assumes "digits n" and "spaces ws" and "digits a" and "digits b"
    and "strip raw = core_text n ws a b rest"
    and "\<not> contains ''Adapter:'' (strip raw)"
  shows "parse_line (adapter, d) raw =
           (adapter, d\<lparr>cpu_temps :=
              AList.update (''Core '' @ n) (float_of_decimal (a @ ''.'' @ b)) (cpu_temps d)\<rparr>) \<and>
         float_of_decimal (a @ ''.'' @ b) =
           real_of_int (int_of_digits a) + real_of_int (int_of_digits b) / 10 ^ length b \<and>
         0 \<le> float_of_decimal (a @ ''.'' @ b) \<and>
         (list_all (\<lambda>c. \<not> is_linebreak c) raw \<longrightarrow>
            current (parse_sensors_output raw d) =
              ([(''Core '' @ n, float_of_decimal (a @ ''.'' @ b))], [], [], []))"
proof -
  have ne: "strip raw \<noteq> []" using assms(5) by (simp add: core_text_def)
  have "current (parse_sensors_output raw d) =
          ([(''Core '' @ n, float_of_decimal (a @ ''.'' @ b))], [], [], [])"
    if "list_all (\<lambda>c. \<not> is_linebreak c) raw"
    using parse_single_line [OF ne that, of d]
      core_line_step [OF assms, of "''unknown''" "clear_current d"]
    by (simp add: current_def clear_current_def)
  with core_line_step [OF assms, of adapter d] float_of_decimal_digits [OF assms(3), of b]
    float_of_decimal_nonneg [OF assms(3), of b]
  show ?thesis by simp
qed

theorem core_temperature_parsed_witness:
  "parse_line (''unknown'', init) core_0_line =
     (''unknown'', init\<lparr>cpu_temps := [(''Core 0'', 45)]\<rparr>) \<and>
   current (parse_sensors_output core_0_line init) = ([(''Core 0'', 45)], [], [], [])"
proof -
  let ?rest = "''  (high = +80.0'' @ [degree] @ ''C, crit = +100.0'' @ [degree] @ ''C)''"
  have d: "digits ''0''" "digits ''45''" by code_simp+
  have s: "spaces ''        ''" by code_simp
  have t: "strip core_0_line = core_text ''0'' ''        '' ''45'' ''0'' ?rest" by code_simp
  have na: "\<not> contains ''Adapter:'' (strip core_0_line)" by code_simp
  have nl: "list_all (\<lambda>c. \<not> is_linebreak c) core_0_line" by code_simp
  have v: "float_of_decimal (''45'' @ ''.'' @ ''0'') = 45" by code_simp
  have i: "cpu_temps init = []" by (simp add: init_def)
  from core_temperature_parsed [OF d(1) s d(2) d(1) t na, of "''unknown''" init] nl v i
  show ?thesis by simp
qed

text \<open>
  C6, at a value signed \<open>-\<close>: the pattern asks for \<open>+\<close>, the search
  finds nothing, and the line \<open>Core 0:        -5.0\<degree>C\<close> stores no sample.
\<close>

theorem negative_core_temperature_dropped:
  "search core_rx negative_core_line = None \<and>
   cpu_temps (parse_sensors_output negative_core_line init) = [] \<and>
   current (parse_sensors_output negative_core_line init) = ([], [], [], [])"
  by code_simp

section \<open>Storage temperatures\<close>

lemma first_composite:
  assumes "spaces ws" and "digits a" and "digits b"
  shows "first_match composite_rx ([], composite_text ws a b rest) =
         Some ([(1, a @ ''.'' @ b)], rest)"
proof -
  let ?t2 = "''+'' @ (a @ ''.'' @ b) @ [degree] @ ''C'' @ rest"
  let ?t1 = "ws @ ?t2"
  have e: "composite_rx = Seq (Lit ''Composite:'') (Seq (Plus Space) (seqs (celsius_rx 1)))"
    by (simp add: composite_rx_def seqs_def)
  have 1: "first_match (Lit ''Composite:'') ([], ''Composite:'' @ ?t1) = Some ([], ?t1)"
    by (rule first_Lit)
  have 2: "first_match (Plus Space) ([], ?t1) = Some ([], ?t2)"
    by (rule first_spaces [OF assms(1)]) (simp add: not_space)
  have 3: "first_match (seqs (celsius_rx 1)) ([], ?t2) = Some (AList.update 1 (a @ ''.'' @ b) [], rest)"
    by (rule first_celsius [OF assms(2) assms(3)])
  have "first_match composite_rx ([], ''Composite:'' @ ?t1) = Some (AList.update 1 (a @ ''.'' @ b) [], rest)"
    unfolding e by (rule first_Seq [OF 1], rule first_Seq [OF 2], rule 3)
  then show ?thesis by (simp add: composite_text_def)
qed

lemma search_composite:
  assumes "spaces ws" and "digits a" and "digits b"
  shows "search composite_rx (composite_text ws a b rest) = Some [(1, a @ ''.'' @ b)]"
  by (rule search_first [OF first_composite [OF assms]])

lemma nvme_nonempty: "contains ''nvme'' (lower adapter) \<Longrightarrow> adapter \<noteq> []"
  by (auto simp: lower_def)

lemma composite_line_step:
  assumes "composite_line raw ws a b rest"
  shows "parse_line (adapter, d) raw =
         (if contains ''nvme'' (lower adapter)
          then (adapter, d\<lparr>storage_temps :=
                  AList.update ''NVMe'' (float_of_decimal (a @ ''.'' @ b)) (storage_temps d)\<rparr>)
          else if contains ''temp'' (lower (strip raw)) \<and> \<not> contains ''Package'' (strip raw)
          then (adapter, on_temp adapter (strip raw) d)
          else (adapter, d))"
proof -
  let ?line = "composite_text ws a b rest"
  from assms have sp: "spaces ws" and da: "digits a" and db: "digits b"
    and line: "strip raw = ?line" and ne0: "\<not> earlier_rule (strip raw)"
    unfolding composite_line_def by blast+
  note ne = ne0 [unfolded line]
  have nonempty: "?line \<noteq> []" by (simp add: composite_text_def)
  have cc: "contains ''Composite'' ?line" by (simp add: composite_text_def)
  have "?line = (''Composite:'' @ ws @ ''+'' @ a @ ''.'' @ b) @ celsius @ rest"
    by (simp add: composite_text_def celsius_def)
  then have c2: "contains celsius ?line" by (simp only: contains_mid)
  from ne c2 have na: "\<not> contains ''Adapter:'' ?line" and nc: "\<not> contains ''Core'' ?line"
    and np: "\<not> contains ''Package id'' ?line"
    and nf: "\<not> (contains ''fan'' (lower ?line) \<and> contains ''RPM'' ?line)"
    by (simp_all add: earlier_rule_def)
  have oc: "on_composite ?line d =
        d\<lparr>storage_temps := AList.update ''NVMe'' (float_of_decimal (a @ ''.'' @ b)) (storage_temps d)\<rparr>"
    by (simp add: on_composite_def search_composite [OF sp da db])
  show ?thesis
  proof (cases "contains ''nvme'' (lower adapter)")
    case True
    with nvme_nonempty [OF True] nonempty na nc np nf cc c2 oc line show ?thesis
      by (auto simp: parse_line.simps Let_def)
  next
    case False
    with nonempty na nc np nf cc c2 line show ?thesis
      by (auto simp: parse_line.simps Let_def)
  qed
qed

text \<open>
  C8, for values signed \<open>+\<close>. Storage temperature gating. Take a line that, stripped, reads \<open>Composite:\<close>,
  whitespace, \<open>+\<close>, a decimal \<open>a.b\<close>, the degree sign and \<open>C\<close>, then anything, and that no
  earlier rule of the loop takes (\<open>composite_line\<close>). It stores a StorageTemperature sample,
  under the fixed key \<open>NVMe\<close>, exactly when the current adapter contains \<open>nvme\<close> in any
  letter case; otherwise the storage snapshot is unchanged (and the whole object is, when
  the line has no \<open>temp\<close> in it). Of two such lines under a matching adapter the later
  value replaces the earlier under the same key.
\<close>

theorem storage_temperature_gating:
  assumes "composite_line raw ws a b rest"
  shows "fst (parse_line (adapter, d) raw) = adapter \<and>
         storage_temps (snd (parse_line (adapter, d) raw)) =
           (if contains ''nvme'' (lower adapter)
            then AList.update ''NVMe'' (float_of_decimal (a @ ''.'' @ b)) (storage_temps d)
            else storage_temps d) \<and>
         (\<not> contains ''nvme'' (lower adapter) \<and> \<not> contains ''temp'' (lower (strip raw)) \<longrightarrow>
            parse_line (adapter, d) raw = (adapter, d)) \<and>
         (contains ''nvme'' (lower adapter) \<and> composite_line raw2 ws2 a2 b2 rest2 \<longrightarrow>
            storage_temps (snd (parse_lines [raw, raw2] (adapter, d))) =
              AList.update ''NVMe'' (float_of_decimal (a2 @ ''.'' @ b2)) (storage_temps d))"
proof -
  note step = composite_line_step [OF assms, of adapter d]
  have two: "storage_temps (snd (parse_lines [raw, raw2] (adapter, d))) =
        AList.update ''NVMe'' (float_of_decimal (a2 @ ''.'' @ b2)) (storage_temps d)"
    if nv: "contains ''nvme'' (lower adapter)" and c2: "composite_line raw2 ws2 a2 b2 rest2"
    using nv step composite_line_step [OF c2, of adapter]
    by (simp add: parse_lines_def)
  from step two show ?thesis
    by (simp add: on_storage_temps)
qed

theorem storage_temperature_gating_witness:
  "storage_temps (snd (parse_line (''nvme-pci-0100'', init) composite_38)) = [(''NVMe'', 38)] \<and>
   parse_line (''Adapter'', init) composite_38 = (''Adapter'', init) \<and>
   storage_temps (snd (parse_lines [composite_38, composite_41] (''nvme-pci-0100'', init))) =
     [(''NVMe'', 83 / 2)]"
proof -
  have c1: "composite_line composite_38 ''    '' ''38'' ''0'' []" by code_simp
  have c2: "composite_line composite_41 '' '' ''41'' ''5''
              (''  (low  = -273.1'' @ [degree] @ ''C)'')" by code_simp
  have nv: "contains ''nvme'' (lower ''nvme-pci-0100'')" by code_simp
  have no: "\<not> contains ''nvme'' (lower ''Adapter'')" by code_simp
  have nt: "\<not> contains ''temp'' (lower (strip composite_38))" by code_simp
  have v: "float_of_decimal (''38'' @ ''.'' @ ''0'') = 38" "float_of_decimal (''41'' @ ''.'' @ ''5'') = 83 / 2"
    by code_simp+
  have i: "storage_temps init = []" by (simp add: init_def)
  from storage_temperature_gating [OF c1, of "''nvme-pci-0100''" init composite_41 "'' ''" "''41''" "''5''"
      "''  (low  = -273.1'' @ [degree] @ ''C)''"]
    storage_temperature_gating [OF c1, of "''Adapter''" init]
    c2 nv no nt v i
  show ?thesis by simp
qed

text \<open>
  C8, at a value signed \<open>-\<close>. The adapter context \<open>nvme-pci-0100\<close> contains \<open>nvme\<close> and
  the line \<open>Composite:    -5.0\<degree>C\<close> carries the composite label and a Celsius value, yet the
  pattern asks for \<open>+\<close>, the search finds nothing and no StorageTemperature sample is
  stored: not by the loop body under that context, and not by a whole parse whose header
  names the controller.
\<close>

theorem negative_composite_dropped:
  "contains ''nvme'' (lower ''nvme-pci-0100'') \<and>
   contains ''Composite'' (strip negative_composite_line) \<and>
   contains celsius (strip negative_composite_line) \<and>
   search composite_rx (strip negative_composite_line) = None \<and>
   fst (parse_line (''nvme-pci-0100'', init) negative_composite_line) = ''nvme-pci-0100'' \<and>
   storage_temps (snd (parse_line (''nvme-pci-0100'', init) negative_composite_line)) = [] \<and>
   current (snd (parse_line (''nvme-pci-0100'', init) negative_composite_line)) = ([], [], [], []) \<and>
   storage_temps (parse_sensors_output nvme_negative_block init) = []"
  by code_simp

text \<open>The gate opens in a whole parse when the header itself names the controller before its colon.\<close>

lemma nvme_context_reachable:
  "storage_temps (parse_sensors_output nvme_named_block init) = [(''NVMe'', 38)]"
  by code_simp

end
